theory Spec2Isabelle
  imports Main "HOL-Library.Multiset"
begin

section \<open>Strings of Unicode code points\<close>

text \<open>
  A Python \<open>str\<close> is a sequence of Unicode code points, so a string is a list of
  code points and a character is one code point. ASCII literals of the source are
  written through \<open>ustr\<close>.
\<close>

type_synonym codepoint = nat
type_synonym ustring = "codepoint list"

definition ustr :: "string \<Rightarrow> ustring" where
  "ustr s = map of_char s"

text \<open>
  \<open>str.isspace\<close> on one character, which is also what \<open>\s\<close> matches in a
  \<open>str\<close> pattern and what \<open>str.strip()\<close> removes.
\<close>

definition isspace :: "codepoint \<Rightarrow> bool" where
  "isspace c \<longleftrightarrow>
     (0x09 \<le> c \<and> c \<le> 0x0D) \<or> (0x1C \<le> c \<and> c \<le> 0x20) \<or> c = 0x85 \<or> c = 0xA0 \<or>
     c = 0x1680 \<or> (0x2000 \<le> c \<and> c \<le> 0x200A) \<or> c = 0x2028 \<or> c = 0x2029 \<or>
     c = 0x202F \<or> c = 0x205F \<or> c = 0x3000"

text \<open>\<open>sep.join(parts)\<close>.\<close>

fun join :: "ustring \<Rightarrow> ustring list \<Rightarrow> ustring" where
  "join sep [] = []"
| "join sep [x] = x"
| "join sep (x # y # ys) = x @ sep @ join sep (y # ys)"

text \<open>\<open>s.split(sep)\<close> for a separator of one character: always at least one piece.\<close>

fun split :: "codepoint \<Rightarrow> ustring \<Rightarrow> ustring list" where
  "split sep [] = [[]]"
| "split sep (c # cs) =
     (if c = sep then [] # split sep cs
      else (case split sep cs of [] \<Rightarrow> [[c]] | p # ps \<Rightarrow> (c # p) # ps))"

text \<open>\<open>s.strip()\<close>: whitespace removed at both ends.\<close>

definition strip :: "ustring \<Rightarrow> ustring" where
  "strip s = rev (dropWhile isspace (rev (dropWhile isspace s)))"

section \<open>The regular expressions of the source\<close>

text \<open>
  Every pattern of the source is one bracket expression, plain or negated, whose items
  are ranges of characters or the class \<open>\s\<close>.
\<close>

datatype class_item = Range codepoint codepoint | Space_class

datatype pattern = Char_class "class_item list" | Negated_class "class_item list"

fun item_matches :: "class_item \<Rightarrow> codepoint \<Rightarrow> bool" where
  "item_matches (Range lo hi) c = (lo \<le> c \<and> c \<le> hi)"
| "item_matches Space_class c = isspace c"

fun pattern_matches :: "pattern \<Rightarrow> codepoint \<Rightarrow> bool" where
  "pattern_matches (Char_class items) c = list_ex (\<lambda>i. item_matches i c) items"
| "pattern_matches (Negated_class items) c = (\<not> list_ex (\<lambda>i. item_matches i c) items)"

text \<open>\<open>re.sub(p, '', text)\<close>: every character that matches is dropped, the rest copied.\<close>

fun re_sub_empty :: "pattern \<Rightarrow> ustring \<Rightarrow> ustring" where
  "re_sub_empty p [] = []"
| "re_sub_empty p (c # cs) =
     (if pattern_matches p c then re_sub_empty p cs else c # re_sub_empty p cs)"

text \<open>\<open>re.match(p, s)\<close> as a truth value: the pattern must match at the start of \<open>s\<close>.\<close>

fun re_match :: "pattern \<Rightarrow> ustring \<Rightarrow> bool" where
  "re_match p [] = False"
| "re_match p (c # cs) = pattern_matches p c"

section \<open>Cleaner\<close>

text \<open>
  The bracket expression of \<open>clean_text\<close>; its first range is written in the source
  with the two literal characters U+4E00 and U+9FFF.
\<close>

definition clean_pattern :: pattern where
  "clean_pattern = Negated_class
     [Range 0x4E00 0x9FFF,
      Range (of_char CHR ''A'') (of_char CHR ''Z''),
      Range (of_char CHR ''a'') (of_char CHR ''z''),
      Range (of_char CHR ''0'') (of_char CHR ''9''),
      Space_class]"

definition clean_text :: "ustring \<Rightarrow> ustring" where
  "clean_text text = re_sub_empty clean_pattern text"

text \<open>The pattern for one ideograph in U+4E00..U+9FFF, used by the tokenizer's filter and by the enricher.\<close>

definition cjk_pattern :: pattern where
  "cjk_pattern = Char_class [Range 0x4E00 0x9FFF]"

subsection \<open>The cleaner as the specification words it\<close>

definition is_cjk :: "codepoint \<Rightarrow> bool" where
  "is_cjk c \<longleftrightarrow> 0x4E00 \<le> c \<and> c \<le> 0x9FFF"

definition is_ascii_letter :: "codepoint \<Rightarrow> bool" where
  "is_ascii_letter c \<longleftrightarrow> (65 \<le> c \<and> c \<le> 90) \<or> (97 \<le> c \<and> c \<le> 122)"

definition is_ascii_digit :: "codepoint \<Rightarrow> bool" where
  "is_ascii_digit c \<longleftrightarrow> 48 \<le> c \<and> c \<le> 57"

text \<open>The broad range U+4E00..U+FAFF that the specification names for the cleaner.\<close>

definition is_cjk_broad :: "codepoint \<Rightarrow> bool" where
  "is_cjk_broad c \<longleftrightarrow> 0x4E00 \<le> c \<and> c \<le> 0xFAFF"

definition retained :: "codepoint \<Rightarrow> bool" where
  "retained c \<longleftrightarrow> is_cjk c \<or> is_ascii_letter c \<or> is_ascii_digit c \<or> isspace c"

definition retained_broad :: "codepoint \<Rightarrow> bool" where
  "retained_broad c \<longleftrightarrow> is_cjk_broad c \<or> is_ascii_letter c \<or> is_ascii_digit c \<or> isspace c"

section \<open>Tokenizer and aggregator\<close>

text \<open>
  The word segmentation \<open>jieba.lcut\<close> is an external library: it is a parameter
  \<open>lcut\<close> of the model, any function from a string to a list of tokens.
\<close>

type_synonym segmenter = "ustring \<Rightarrow> ustring list"

text \<open>The condition of the list comprehension in \<open>segment_text\<close>.\<close>

definition keep_word :: "ustring \<Rightarrow> bool" where
  "keep_word word \<longleftrightarrow> strip word \<noteq> [] \<and> re_match cjk_pattern word"

text \<open>The loop over the texts, extending \<open>all_words\<close>.\<close>

fun collect_words :: "segmenter \<Rightarrow> ustring list \<Rightarrow> ustring list \<Rightarrow> ustring list" where
  "collect_words lcut [] all_words = all_words"
| "collect_words lcut (text # texts) all_words =
     (let clean = clean_text text;
          segmented = lcut clean
      in collect_words lcut texts (all_words @ filter keep_word segmented))"

text \<open>
  A \<open>Counter\<close> is a dictionary, which iterates in the order in which its keys were first
  inserted: an association list in that order. Counting one more element adds one to
  its entry where it stands, or appends a new entry with count one.
\<close>

type_synonym counter = "(ustring \<times> int) list"

fun counter_add :: "ustring \<Rightarrow> counter \<Rightarrow> counter" where
  "counter_add w [] = [(w, 1)]"
| "counter_add w ((k, n) # rest) =
     (if k = w then (k, n + 1) # rest else (k, n) # counter_add w rest)"

definition Counter :: "ustring list \<Rightarrow> counter" where
  "Counter elems = fold counter_add elems []"

definition segment_text :: "segmenter \<Rightarrow> ustring list \<Rightarrow> counter" where
  "segment_text lcut texts = Counter (collect_words lcut texts [])"

section \<open>Dictionary\<close>

text \<open>
  An entry of the parsed dictionary, with the fields the source reads. The entries are
  plain objects (always true in a condition), so \<open>if entry:\<close> asks whether the lookup
  found one. The parsed dictionary itself is an input of the model.
\<close>

record cedict_entry =
  simplified :: ustring
  pinyin :: ustring
  meanings :: "ustring list"

type_synonym dictionary = "ustring \<rightharpoonup> cedict_entry"

text \<open>
  \<open>load_cedict_dictionary\<close> on the entries that the external parser returns: the
  dictionary comprehension keyed by the simplified form, a later entry replacing an
  earlier one with the same headword.
\<close>

definition load_cedict_dictionary :: "cedict_entry list \<Rightarrow> dictionary" where
  "load_cedict_dictionary entries = fold (\<lambda>entry d. d(simplified entry \<mapsto> entry)) entries Map.empty"

text \<open>The loop of \<open>derive_translation_from_components\<close>, appending one gloss per character.\<close>

fun character_translations :: "dictionary \<Rightarrow> ustring \<Rightarrow> ustring list \<Rightarrow> ustring list" where
  "character_translations dict [] acc = acc"
| "character_translations dict (char # rest) acc =
     (case dict [char] of
        Some char_entry \<Rightarrow>
          character_translations dict rest (acc @ [join (ustr '', '') (meanings char_entry)])
      | None \<Rightarrow> character_translations dict rest (acc @ [ustr ''?'']))"

definition derive_translation_from_components :: "ustring \<Rightarrow> dictionary \<Rightarrow> ustring" where
  "derive_translation_from_components word dict =
     join (ustr '' + '') (character_translations dict word [])"

section \<open>Remote translation\<close>

text \<open>
  The translation client is external. It is a parameter: the reply to the call number
  \<open>k\<close> (counted from 0) with a given text is \<open>Some\<close> reply text, or \<open>None\<close> when
  anything in the \<open>try\<close> block raises an exception that \<open>except Exception\<close> catches
  (the call itself, or reading the text of its result); nothing has been stored for the
  batch at that point.
\<close>

type_synonym translator = "nat \<Rightarrow> ustring \<Rightarrow> ustring option"

datatype log_record =
    Info_translating_batch nat nat
  | Error_translating_batch nat

text \<open>
  The state of \<open>fetch_missing_translations\<close>: the dictionary \<open>translations\<close> (here
  \<open>translations_dict\<close>), the
  records logged, and the texts passed to the translation client so far.
\<close>

record fetch_state =
  translations_dict :: "ustring \<rightharpoonup> ustring"
  logged :: "log_record list"
  requests :: "ustring list"

definition batch_size :: nat where
  "batch_size = 100"

text \<open>The separator \<open>"\n"\<close> of the batch text and of the reply.\<close>

definition newline :: codepoint where
  "newline = 0x0A"

text \<open>\<open>for word, translated in zip(batch, batch_results): translations[word] = translated\<close>\<close>

fun store_translations :: "(ustring \<times> ustring) list \<Rightarrow> (ustring \<rightharpoonup> ustring) \<Rightarrow> (ustring \<rightharpoonup> ustring)" where
  "store_translations [] tbl = tbl"
| "store_translations ((word, translated) # rest) tbl = store_translations rest (tbl(word \<mapsto> translated))"

text \<open>One pass of the loop body, for the batch that starts at index \<open>i\<close>.\<close>

definition translate_batch :: "translator \<Rightarrow> ustring list \<Rightarrow> nat \<Rightarrow> fetch_state \<Rightarrow> fetch_state" where
  "translate_batch tr missing_words i st =
     (let batch = take batch_size (drop i missing_words);
          text = join [newline] batch;
          st1 = st\<lparr>logged := logged st @
                   [Info_translating_batch (i div batch_size + 1)
                      ((length missing_words + batch_size - 1) div batch_size)],
                 requests := requests st @ [text]\<rparr>
      in case tr (length (requests st)) text of
           Some reply \<Rightarrow>
             st1\<lparr>translations_dict :=
                   store_translations (zip batch (split newline reply)) (translations_dict st1)\<rparr>
         | None \<Rightarrow>
             st1\<lparr>logged := logged st1 @ [Error_translating_batch (i div batch_size + 1)]\<rparr>)"

function fetch_loop :: "translator \<Rightarrow> ustring list \<Rightarrow> nat \<Rightarrow> fetch_state \<Rightarrow> fetch_state" where
  "fetch_loop tr missing_words i st =
     (if i < length missing_words
      then fetch_loop tr missing_words (i + batch_size) (translate_batch tr missing_words i st)
      else st)"
  by pat_completeness auto
termination
  by (relation "measure (\<lambda>(tr, missing_words, i, st). length missing_words - i)")
     (auto simp: batch_size_def)

declare fetch_loop.simps [simp del]

definition fetch_missing_translations :: "translator \<Rightarrow> ustring list \<Rightarrow> fetch_state" where
  "fetch_missing_translations tr missing_words =
     fetch_loop tr missing_words 0 \<lparr>translations_dict = Map.empty, logged = [], requests = []\<rparr>"

section \<open>Enricher\<close>

text \<open>
  The romanization \<open>pinyin(char, style=Style.TONE3)[0][0]\<close> of one character is external:
  the parameter \<open>tone3\<close>.
\<close>

type_synonym romanizer = "codepoint \<Rightarrow> ustring"

record enhanced_entry =
  Word :: ustring
  Count :: int
  Translation :: ustring
  Pinyin :: ustring

text \<open>The first loop of \<open>add_translations_and_pinyin\<close>.\<close>

fun missing_words_of :: "dictionary \<Rightarrow> ustring list \<Rightarrow> ustring list" where
  "missing_words_of dict [] = []"
| "missing_words_of dict (word # rest) =
     (if dict word = None then word # missing_words_of dict rest else missing_words_of dict rest)"

text \<open>The body of the second loop: the entry of one word.\<close>

definition enhance :: "romanizer \<Rightarrow> dictionary \<Rightarrow> (ustring \<rightharpoonup> ustring) \<Rightarrow> ustring \<times> int \<Rightarrow> enhanced_entry" where
  "enhance tone3 dict missing_translations wc =
     (case wc of (word, cnt) \<Rightarrow>
        (case dict word of
           Some entry \<Rightarrow>
             \<lparr>Word = word, Count = cnt,
              Translation = join (ustr '', '') (meanings entry),
              Pinyin = pinyin entry\<rparr>
         | None \<Rightarrow>
             \<lparr>Word = word, Count = cnt,
              Translation =
                (case missing_translations word of
                   Some translated \<Rightarrow> translated
                 | None \<Rightarrow> derive_translation_from_components word dict),
              Pinyin = join (ustr '' '') (map tone3 (filter (\<lambda>char. re_match cjk_pattern [char]) word))\<rparr>))"

fun enhance_all :: "romanizer \<Rightarrow> dictionary \<Rightarrow> (ustring \<rightharpoonup> ustring) \<Rightarrow> counter \<Rightarrow> enhanced_entry list" where
  "enhance_all tone3 dict missing_translations [] = []"
| "enhance_all tone3 dict missing_translations (wc # rest) =
     enhance tone3 dict missing_translations wc # enhance_all tone3 dict missing_translations rest"

text \<open>
  \<open>sorted(xs, key=f, reverse=True)\<close>: a stable sort into descending order of the key,
  elements with equal keys keeping their order.
\<close>

definition sorted_reverse :: "('a \<Rightarrow> int) \<Rightarrow> 'a list \<Rightarrow> 'a list" where
  "sorted_reverse f xs = sort_key (\<lambda>x. - f x) xs"

definition missing_translations_of :: "translator \<Rightarrow> dictionary \<Rightarrow> counter \<Rightarrow> (ustring \<rightharpoonup> ustring)" where
  "missing_translations_of tr dict word_counts =
     (let missing_words = missing_words_of dict (map fst word_counts)
      in if missing_words \<noteq> [] then translations_dict (fetch_missing_translations tr missing_words)
         else Map.empty)"

definition add_translations_and_pinyin ::
    "translator \<Rightarrow> romanizer \<Rightarrow> counter \<Rightarrow> dictionary \<Rightarrow> enhanced_entry list" where
  "add_translations_and_pinyin tr tone3 word_counts dict =
     (let missing_translations = missing_translations_of tr dict word_counts;
          enhanced_data = enhance_all tone3 dict missing_translations word_counts
      in sorted_reverse Count enhanced_data)"

section \<open>Writer\<close>

record metadata =
  total_words :: int
  unique_words :: int

record output_document =
  metadata :: metadata
  data :: "enhanced_entry list"

text \<open>The document that \<open>save_enhanced_data\<close> serializes.\<close>

definition save_enhanced_data :: "enhanced_entry list \<Rightarrow> counter \<Rightarrow> output_document" where
  "save_enhanced_data enhanced_data word_counts =
     \<lparr>metadata = \<lparr>total_words = sum_list (map snd word_counts),
                   unique_words = int (length word_counts)\<rparr>,
      data = enhanced_data\<rparr>"

text \<open>
  The run: the texts read from the input file and the parsed dictionary are inputs, the
  result is the document written to the output file.
\<close>

definition main ::
    "segmenter \<Rightarrow> translator \<Rightarrow> romanizer \<Rightarrow> dictionary \<Rightarrow> ustring list \<Rightarrow> output_document" where
  "main lcut tr tone3 dict texts =
     (let word_counts = segment_text lcut texts;
          enhanced_data = add_translations_and_pinyin tr tone3 word_counts dict
      in save_enhanced_data enhanced_data word_counts)"

section \<open>Notions of the specification\<close>

text \<open>
  The distinct elements of a list in the order of their first occurrence: the
  "first-seen order" of the tokens.
\<close>

fun first_seen :: "'a list \<Rightarrow> 'a list" where
  "first_seen [] = []"
| "first_seen (x # xs) = x # removeAll x (first_seen xs)"

text \<open>
  The batch number \<open>k\<close> (counted from 0) of the missing words, and the number of
  batches.
\<close>

definition nth_batch :: "ustring list \<Rightarrow> nat \<Rightarrow> ustring list" where
  "nth_batch ws k = take batch_size (drop (k * batch_size) ws)"

definition num_batches :: "ustring list \<Rightarrow> nat" where
  "num_batches ws = (length ws + batch_size - 1) div batch_size"

text \<open>
  The state of the loop of \<open>fetch_missing_translations\<close> after its first \<open>m\<close>
  passes.
\<close>

definition after_batches :: "translator \<Rightarrow> ustring list \<Rightarrow> nat \<Rightarrow> fetch_state" where
  "after_batches tr ws m =
     fold (\<lambda>j. translate_batch tr ws (j * batch_size)) [0..<m]
       \<lparr>translations_dict = Map.empty, logged = [], requests = []\<rparr>"

text \<open>
  What the reply to batch \<open>j\<close> gives to the words of that batch, paired by position;
  nothing when the call raises.
\<close>

definition batch_translations :: "translator \<Rightarrow> ustring list \<Rightarrow> nat \<Rightarrow> (ustring \<rightharpoonup> ustring)" where
  "batch_translations tr ws j =
     (case tr j (join [newline] (nth_batch ws j)) of
        None \<Rightarrow> Map.empty
      | Some reply \<Rightarrow> map_of (zip (nth_batch ws j) (split newline reply)))"

section \<open>Example inputs\<close>

text \<open>Concrete inputs on which the theorems below are instantiated.\<close>

definition single_chars :: segmenter where
  "single_chars t = map (\<lambda>c. [c]) t"

definition example_texts :: "ustring list" where
  "example_texts = [[0x4F60, 0x597D, 0x4F60, 0x21]]"

definition example_entry :: cedict_entry where
  "example_entry = \<lparr>simplified = [0x597D], pinyin = ustr ''hao3'',
                     meanings = [ustr ''good'', ustr ''well'']\<rparr>"

definition example_dict :: dictionary where
  "example_dict = [[0x597D] \<mapsto> example_entry]"

definition example_counts :: counter where
  "example_counts = [([0x4F60, 0x597D, 0x41], 2), ([0x597D], 1)]"

definition failing_translator :: translator where
  "failing_translator k t = None"

definition example_tone3 :: romanizer where
  "example_tone3 c = (if c = 0x4F60 then ustr ''ni3'' else ustr ''hao3'')"

text \<open>
  More words than one batch holds, none of them in the dictionary, and a translation
  service whose first call raises and whose later calls echo the request.
\<close>

definition many_words :: "ustring list" where
  "many_words = map (\<lambda>n. [0x4E00 + n]) [0..<101]"

definition many_counts :: counter where
  "many_counts = map (\<lambda>w. (w, 1)) many_words"

definition first_call_fails :: translator where
  "first_call_fails k t = (if k = 0 then None else Some t)"

section \<open>Properties of the cleaner\<close>

lemma re_sub_empty_filter: "re_sub_empty p s = filter (\<lambda>c. \<not> pattern_matches p c) s"
  by (induction s) simp_all

lemma clean_pattern_matches: "pattern_matches clean_pattern c \<longleftrightarrow> \<not> retained c"
  by (simp add: clean_pattern_def retained_def is_cjk_def is_ascii_letter_def
      is_ascii_digit_def)

lemma clean_text_filter: "clean_text s = filter retained s"
  by (simp add: clean_text_def re_sub_empty_filter clean_pattern_matches)

text \<open>
  C9. The cleaner is idempotent: cleaning a cleaned string changes nothing.
\<close>

theorem clean_text_idempotent: "clean_text (clean_text s) = clean_text s"
  by (simp add: clean_text_filter)

text \<open>
  C4, as amended. The output of the cleaner is the input with exactly those characters
  kept, in their order, that are ideographs in U+4E00..U+9FFF, ASCII letters, ASCII
  digits or whitespace; everything else is deleted, and the empty string stays empty.
\<close>

theorem clean_text_retains:
  "clean_text s = filter retained s \<and> clean_text [] = []"
  by (simp add: clean_text_filter)

text \<open>
  C4, as stated, fails: the compatibility ideograph U+F900 lies in U+4E00..U+FAFF, and
  the cleaner deletes it.
\<close>

theorem clean_text_broad_range_counterexample:
  "retained_broad 0xF900 \<and> clean_text [0xF900] = [] \<and>
   clean_text [0xF900] \<noteq> filter retained_broad [0xF900]"
  by (simp add: clean_text_filter retained_def retained_broad_def is_cjk_def
      is_cjk_broad_def is_ascii_letter_def is_ascii_digit_def isspace_def)

section \<open>Tokens, counts and the output document\<close>

lemma set_first_seen: "set (first_seen xs) = set xs"
  by (induction xs) auto

lemma distinct_first_seen: "distinct (first_seen xs)"
  by (induction xs) (auto simp: distinct_removeAll)

lemma first_seen_snoc:
  "first_seen (xs @ [x]) = (if x \<in> set xs then first_seen xs else first_seen xs @ [x])"
  by (induction xs) (auto simp: set_first_seen)

lemma first_occurrence_exists:
  assumes "y \<in> set ws"
  shows "\<exists>p<length ws. ws ! p = y \<and> y \<notin> set (take p ws)"
proof -
  from split_list_first [OF assms] obtain ys zs where ws: "ws = ys @ y # zs" and y: "y \<notin> set ys"
    by blast
  have "length ys < length ws" "ws ! length ys = y" "y \<notin> set (take (length ys) ws)"
    using y by (simp_all add: ws)
  then show ?thesis by blast
qed

text \<open>
  \<open>first_seen\<close> lists the elements by the position of their first occurrence: an
  element that stands earlier in \<open>first_seen ws\<close> occurs for the first time earlier
  in \<open>ws\<close>.
\<close>

lemma first_seen_first_occurrences:
  "i < j \<Longrightarrow> j < length (first_seen ws) \<Longrightarrow>
   \<exists>p q. p < q \<and> q < length ws \<and>
     ws ! p = first_seen ws ! i \<and> first_seen ws ! i \<notin> set (take p ws) \<and>
     ws ! q = first_seen ws ! j \<and> first_seen ws ! j \<notin> set (take q ws)"
proof (induction ws rule: rev_induct)
  case Nil
  then show ?case by simp
next
  case (snoc x ws)
  show ?case
  proof (cases "j < length (first_seen ws)")
    case True
    from snoc.IH [OF snoc.prems(1) True] obtain p q where pq: "p < q" "q < length ws"
      "ws ! p = first_seen ws ! i" "first_seen ws ! i \<notin> set (take p ws)"
      "ws ! q = first_seen ws ! j" "first_seen ws ! j \<notin> set (take q ws)"
      by blast
    have fi: "first_seen (ws @ [x]) ! i = first_seen ws ! i"
      and fj: "first_seen (ws @ [x]) ! j = first_seen ws ! j"
      using True snoc.prems(1) by (simp_all add: first_seen_snoc nth_append)
    from pq have "p < q \<and> q < length (ws @ [x]) \<and>
       (ws @ [x]) ! p = first_seen ws ! i \<and> first_seen ws ! i \<notin> set (take p (ws @ [x])) \<and>
       (ws @ [x]) ! q = first_seen ws ! j \<and> first_seen ws ! j \<notin> set (take q (ws @ [x]))"
      by (simp add: nth_append)
    then show ?thesis unfolding fi fj by blast
  next
    case False
    with snoc.prems(2) have new: "x \<notin> set ws" and j: "j = length (first_seen ws)"
      by (auto simp: first_seen_snoc split: if_splits)
    from snoc.prems(1) j have i: "i < length (first_seen ws)" by simp
    have fi: "first_seen (ws @ [x]) ! i = first_seen ws ! i"
      and fj: "first_seen (ws @ [x]) ! j = x"
      using new i j by (simp_all add: first_seen_snoc nth_append)
    from i have "first_seen ws ! i \<in> set ws"
      using nth_mem [OF i] by (simp add: set_first_seen)
    from first_occurrence_exists [OF this] obtain p where p: "p < length ws"
      "ws ! p = first_seen ws ! i" "first_seen ws ! i \<notin> set (take p ws)"
      by blast
    from p new have "p < length ws \<and> length ws < length (ws @ [x]) \<and>
       (ws @ [x]) ! p = first_seen ws ! i \<and> first_seen ws ! i \<notin> set (take p (ws @ [x])) \<and>
       (ws @ [x]) ! length ws = x \<and> x \<notin> set (take (length ws) (ws @ [x]))"
      by (simp add: nth_append)
    then show ?thesis unfolding fi fj by blast
  qed
qed

lemma counter_add_map:
  "distinct ks \<Longrightarrow>
   counter_add w (map (\<lambda>k. (k, f k)) ks) =
     (if w \<in> set ks then map (\<lambda>k. (k, if k = w then f k + 1 else f k)) ks
      else map (\<lambda>k. (k, f k)) ks @ [(w, 1)])"
  by (induction ks) auto

lemma Counter_snoc: "Counter (ws @ [w]) = counter_add w (Counter ws)"
  by (simp add: Counter_def)

lemma Counter_first_seen:
  "Counter ws = map (\<lambda>w. (w, int (count_list ws w))) (first_seen ws)"
proof (induction ws rule: rev_induct)
  case Nil
  show ?case by (simp add: Counter_def)
next
  case (snoc w ws)
  have "Counter (ws @ [w]) = counter_add w (map (\<lambda>k. (k, int (count_list ws k))) (first_seen ws))"
    by (simp add: Counter_snoc snoc.IH)
  also have "\<dots> = map (\<lambda>k. (k, int (count_list (ws @ [w]) k))) (first_seen (ws @ [w]))"
    by (auto simp: counter_add_map distinct_first_seen set_first_seen first_seen_snoc)
  finally show ?case .
qed

lemma collect_words_concat:
  "collect_words lcut texts acc =
     acc @ concat (map (\<lambda>t. filter keep_word (lcut (clean_text t))) texts)"
  by (induction texts arbitrary: acc) simp_all

lemma dropWhile_all: "(\<forall>x\<in>set (dropWhile P w). P x) \<longleftrightarrow> (\<forall>x\<in>set w. P x)"
  by (induction w) auto

lemma strip_empty_iff: "strip w = [] \<longleftrightarrow> list_all isspace w"
  by (simp add: strip_def dropWhile_eq_Nil_conv dropWhile_all list_all_iff)

lemma keep_word_iff:
  "keep_word w \<longleftrightarrow> \<not> list_all isspace w \<and> (case w of [] \<Rightarrow> False | c # cs \<Rightarrow> is_cjk c)"
  by (cases w) (simp_all add: keep_word_def strip_empty_iff cjk_pattern_def is_cjk_def)

lemma enhance_all_map: "enhance_all tone3 dict mt wcs = map (enhance tone3 dict mt) wcs"
  by (induction wcs) simp_all

lemma Word_enhance: "Word (enhance tone3 dict mt wc) = fst wc"
  by (cases wc) (simp add: enhance_def split: option.splits)

lemma Count_enhance: "Count (enhance tone3 dict mt wc) = snd wc"
  by (cases wc) (simp add: enhance_def split: option.splits)

lemma set_sorted_reverse: "set (sorted_reverse f xs) = set xs"
  by (simp add: sorted_reverse_def)

lemma mset_sorted_reverse: "mset (sorted_reverse f xs) = mset xs"
  by (simp add: sorted_reverse_def)

lemma length_sorted_reverse: "length (sorted_reverse f xs) = length xs"
  by (simp add: sorted_reverse_def)

lemma sorted_reverse_descending: "sorted_wrt (\<lambda>a b. f a \<ge> f b) (sorted_reverse f xs)"
proof -
  have "sorted (map (\<lambda>x. - f x) (sorted_reverse f xs))"
    by (simp add: sorted_reverse_def)
  then show ?thesis
    by (simp add: sorted_wrt_map)
qed

lemma sorted_reverse_stable:
  "filter (\<lambda>x. f x = k) (sorted_reverse f xs) = filter (\<lambda>x. f x = k) xs"
  using sort_key_stable [of "\<lambda>x. - f x" "- k" xs]
  by (simp add: sorted_reverse_def)

lemma data_main:
  "data (main lcut tr tone3 dict texts) =
     sorted_reverse Count
       (map (enhance tone3 dict (missing_translations_of tr dict (segment_text lcut texts)))
          (segment_text lcut texts))"
  by (simp add: main_def save_enhanced_data_def add_translations_and_pinyin_def
      enhance_all_map Let_def)



lemma segment_text_first_seen:
  "segment_text lcut texts =
     map (\<lambda>w. (w, int (count_list (collect_words lcut texts []) w)))
       (first_seen (collect_words lcut texts []))"
  by (simp add: segment_text_def Counter_first_seen)

lemma keys_segment_text:
  "map fst (segment_text lcut texts) = first_seen (collect_words lcut texts [])"
  by (simp add: segment_text_first_seen comp_def)

lemma sum_list_int_map: "(\<Sum>x\<leftarrow>xs. int (f x)) = int (\<Sum>x\<leftarrow>xs. f x)"
  by (induction xs) simp_all

lemma sum_count_list_first_seen:
  "(\<Sum>w\<leftarrow>first_seen ws. int (count_list ws w)) = int (length ws)"
proof -
  have "(\<Sum>w\<leftarrow>first_seen ws. count_list ws w) = (\<Sum>w\<in>set ws. count_list ws w)"
    by (simp add: sum_list_distinct_conv_sum_set distinct_first_seen set_first_seen)
  also have "\<dots> = length ws"
    by (rule sum_count_set) simp_all
  finally show ?thesis
    by (simp add: sum_list_int_map)
qed

lemma map_Word_enhance: "map Word (map (enhance tone3 dict mt) wcs) = map fst wcs"
  by (induction wcs) (simp_all add: Word_enhance)

lemma map_Count_enhance: "map Count (map (enhance tone3 dict mt) wcs) = map snd wcs"
  by (induction wcs) (simp_all add: Count_enhance)

lemma mset_map_sorted_reverse: "mset (map g (sorted_reverse f xs)) = mset (map g xs)"
  by (metis mset_map mset_sorted_reverse)

lemma metadata_main:
  "metadata (main lcut tr tone3 dict texts) =
     \<lparr>total_words = sum_list (map snd (segment_text lcut texts)),
      unique_words = int (length (segment_text lcut texts))\<rparr>"
  by (simp add: main_def save_enhanced_data_def Let_def)

text \<open>
  C1. In the document of a run, the words of the data sequence are the keys of the
  word-count table, each exactly once; \<open>total_words\<close> is the sum of the entries'
  counts; \<open>unique_words\<close> is the number of entries, which is the number of distinct
  filtered tokens.
\<close>

theorem output_counts_consistent:
  "distinct (map Word (data (main lcut tr tone3 dict texts))) \<and>
   set (map Word (data (main lcut tr tone3 dict texts))) = fst ` set (segment_text lcut texts) \<and>
   total_words (metadata (main lcut tr tone3 dict texts)) =
     sum_list (map Count (data (main lcut tr tone3 dict texts))) \<and>
   unique_words (metadata (main lcut tr tone3 dict texts)) =
     int (length (data (main lcut tr tone3 dict texts))) \<and>
   unique_words (metadata (main lcut tr tone3 dict texts)) =
     int (card (set (collect_words lcut texts [])))"
proof -
  let ?wc = "segment_text lcut texts"
  let ?out = "main lcut tr tone3 dict texts"
  have w: "mset (map Word (data ?out)) = mset (map fst ?wc)"
    by (simp only: data_main mset_map_sorted_reverse map_Word_enhance)
  have c: "mset (map Count (data ?out)) = mset (map snd ?wc)"
    by (simp only: data_main mset_map_sorted_reverse map_Count_enhance)
  have d: "distinct (map fst ?wc)"
    by (simp add: keys_segment_text distinct_first_seen)
  have 1: "distinct (map Word (data ?out))"
    using w d by (metis mset_eq_imp_distinct_iff)
  have 2: "set (map Word (data ?out)) = fst ` set ?wc"
    using mset_eq_setD [OF w] by simp
  have 3: "total_words (metadata ?out) = sum_list (map Count (data ?out))"
    using arg_cong [OF c, of sum_mset]
    by (simp only: metadata_main sum_mset_sum_list metadata.simps)
  have 4: "unique_words (metadata ?out) = int (length (data ?out))"
    by (simp add: metadata_main data_main length_sorted_reverse)
  have "length ?wc = card (set (collect_words lcut texts []))"
    using distinct_card [OF distinct_first_seen, of "collect_words lcut texts []"]
    by (simp add: segment_text_first_seen set_first_seen)
  then have 5: "unique_words (metadata ?out) = int (card (set (collect_words lcut texts [])))"
    by (simp add: metadata_main)
  from 1 2 3 4 5 show ?thesis by blast
qed

section \<open>Enricher and ordering\<close>

text \<open>
  C3. The data sequence is in descending order of \<open>Count\<close>, and for every count
  \<open>k\<close> the words of the entries with that count stand in the order in which they were
  first seen in the token stream (\<open>first_seen\<close>, see
  \<open>first_seen_first_occurrences\<close>).
\<close>

theorem data_sorted_stable:
  "sorted_wrt (\<lambda>a b. Count a \<ge> Count b) (data (main lcut tr tone3 dict texts)) \<and>
   (\<forall>k. map Word (filter (\<lambda>e. Count e = k) (data (main lcut tr tone3 dict texts))) =
        filter (\<lambda>w. int (count_list (collect_words lcut texts []) w) = k)
          (first_seen (collect_words lcut texts [])))"
proof -
  let ?ws = "collect_words lcut texts []"
  let ?wc = "segment_text lcut texts"
  let ?en = "enhance tone3 dict (missing_translations_of tr dict ?wc)"
  have 1: "sorted_wrt (\<lambda>a b. Count a \<ge> Count b) (data (main lcut tr tone3 dict texts))"
    by (simp only: data_main sorted_reverse_descending)
  have 2: "map Word (filter (\<lambda>e. Count e = k) (data (main lcut tr tone3 dict texts))) =
        filter (\<lambda>w. int (count_list ?ws w) = k) (first_seen ?ws)" for k
  proof -
    have "map Word (filter (\<lambda>e. Count e = k) (data (main lcut tr tone3 dict texts))) =
          map Word (filter (\<lambda>e. Count e = k) (map ?en ?wc))"
      by (simp only: data_main sorted_reverse_stable)
    also have "\<dots> = map fst (filter (\<lambda>wc. snd wc = k) ?wc)"
      by (simp add: filter_map comp_def Count_enhance Word_enhance)
    also have "\<dots> = filter (\<lambda>w. int (count_list ?ws w) = k) (first_seen ?ws)"
      by (simp add: segment_text_first_seen filter_map comp_def)
    finally show ?thesis .
  qed
  from 1 2 show ?thesis by blast
qed

text \<open>
  C8. Every filtered token, hence every key of the word-count table, is non-empty, is
  not made of whitespace only, and starts with a character in U+4E00..U+9FFF; the
  filtered tokens are exactly the tokens of the segmenter that satisfy this.
\<close>

theorem filtered_tokens_start_with_cjk:
  "(\<forall>w \<in> set (collect_words lcut texts []) \<union> fst ` set (segment_text lcut texts).
      w \<noteq> [] \<and> \<not> list_all isspace w \<and> is_cjk (hd w)) \<and>
   fst ` set (segment_text lcut texts) = set (collect_words lcut texts []) \<and>
   set (collect_words lcut texts []) =
     {w \<in> (\<Union>t \<in> set texts. set (lcut (clean_text t))).
        \<not> list_all isspace w \<and> (case w of [] \<Rightarrow> False | c # cs \<Rightarrow> is_cjk c)}"
proof -
  have k: "fst ` set (segment_text lcut texts) = set (collect_words lcut texts [])"
    using arg_cong [OF keys_segment_text, of set lcut texts] by (simp add: set_first_seen)
  have c: "set (collect_words lcut texts []) =
     {w \<in> (\<Union>t \<in> set texts. set (lcut (clean_text t))).
        \<not> list_all isspace w \<and> (case w of [] \<Rightarrow> False | c # cs \<Rightarrow> is_cjk c)}"
    by (auto simp: collect_words_concat keep_word_iff)
  have "w \<noteq> [] \<and> \<not> list_all isspace w \<and> is_cjk (hd w)"
    if "w \<in> set (collect_words lcut texts [])" for w
    using that unfolding c by (cases w) auto
  with k c show ?thesis by blast
qed

text \<open>
  C10. Every entry of the data sequence has a count of at least 1 and a word that
  occurred as a filtered token; \<open>total_words\<close> is at least \<open>unique_words\<close>.
\<close>

theorem counts_positive_words_occur:
  "(\<forall>e \<in> set (data (main lcut tr tone3 dict texts)).
      1 \<le> Count e \<and> Word e \<in> set (collect_words lcut texts [])) \<and>
   unique_words (metadata (main lcut tr tone3 dict texts)) \<le>
     total_words (metadata (main lcut tr tone3 dict texts))"
proof -
  let ?ws = "collect_words lcut texts []"
  let ?wc = "segment_text lcut texts"
  have a: "1 \<le> Count e \<and> Word e \<in> set ?ws" if "e \<in> set (data (main lcut tr tone3 dict texts))" for e
  proof -
    from that obtain wc where wc: "wc \<in> set ?wc" and e: "e = enhance tone3 dict (missing_translations_of tr dict ?wc) wc"
      by (auto simp: data_main set_sorted_reverse)
    from wc obtain w where w: "w \<in> set ?ws" and "wc = (w, int (count_list ?ws w))"
      by (auto simp: segment_text_first_seen set_first_seen)
    moreover from w have "0 < count_list ?ws w"
      using count_list_0_iff [of ?ws w] by simp
    ultimately show ?thesis
      by (simp add: e Count_enhance Word_enhance)
  qed
  have "int (length (first_seen ?ws)) \<le> int (length ?ws)"
    using card_length [of ?ws] distinct_card [OF distinct_first_seen, of ?ws]
    by (simp add: set_first_seen)
  then have b: "unique_words (metadata (main lcut tr tone3 dict texts)) \<le>
     total_words (metadata (main lcut tr tone3 dict texts))"
    by (simp add: metadata_main segment_text_first_seen comp_def sum_count_list_first_seen)
  from a b show ?thesis by blast
qed


lemma character_translations_map:
  "character_translations dict word acc =
     acc @ map (\<lambda>c. case dict [c] of Some ce \<Rightarrow> join (ustr '', '') (meanings ce)
                                  | None \<Rightarrow> ustr ''?'') word"
  by (induction word arbitrary: acc) (simp_all split: option.splits)

lemma pattern_matches_cjk: "pattern_matches cjk_pattern = is_cjk"
  by (rule ext) (simp add: cjk_pattern_def is_cjk_def)


lemma set_add_translations_and_pinyin:
  "set (add_translations_and_pinyin tr tone3 word_counts dict) =
     enhance tone3 dict (missing_translations_of tr dict word_counts) ` set word_counts"
  by (simp add: add_translations_and_pinyin_def Let_def set_sorted_reverse enhance_all_map)

lemma missing_words_of_filter:
  "missing_words_of dict ws = filter (\<lambda>w. dict w = None) ws"
  by (induction ws) simp_all

text \<open>
  C2. A word of the word-count table that is a headword of the dictionary gets the
  entry's meanings joined by \<open>", "\<close> as translation and the entry's pinyin as it is
  stored, whatever the translation service and the romanizer do; it is not among the
  words queued for remote translation.
\<close>

theorem dictionary_hit_entry:
  assumes "(word, cnt) \<in> set word_counts" and "dict word = Some entry"
  shows "\<lparr>Word = word, Count = cnt, Translation = join (ustr '', '') (meanings entry),
           Pinyin = pinyin entry\<rparr> \<in> set (add_translations_and_pinyin tr tone3 word_counts dict) \<and>
         (\<forall>e \<in> set (add_translations_and_pinyin tr tone3 word_counts dict).
            Word e = word \<longrightarrow>
              Translation e = join (ustr '', '') (meanings entry) \<and> Pinyin e = pinyin entry) \<and>
         word \<notin> set (missing_words_of dict (map fst word_counts))"
proof -
  let ?mt = "missing_translations_of tr dict word_counts"
  have e: "enhance tone3 dict ?mt (word, c) =
      \<lparr>Word = word, Count = c, Translation = join (ustr '', '') (meanings entry),
       Pinyin = pinyin entry\<rparr>" for c
    using assms(2) by (simp add: enhance_def)
  have 1: "\<lparr>Word = word, Count = cnt, Translation = join (ustr '', '') (meanings entry),
           Pinyin = pinyin entry\<rparr> \<in> set (add_translations_and_pinyin tr tone3 word_counts dict)"
    unfolding set_add_translations_and_pinyin using assms(1) e [of cnt] by force
  have 2: "Translation x = join (ustr '', '') (meanings entry) \<and> Pinyin x = pinyin entry"
    if "x \<in> set (add_translations_and_pinyin tr tone3 word_counts dict)" "Word x = word" for x
  proof -
    from that(1) obtain w c where "x = enhance tone3 dict ?mt (w, c)"
      unfolding set_add_translations_and_pinyin by auto
    with that(2) have "x = enhance tone3 dict ?mt (word, c)"
      using Word_enhance [of tone3 dict ?mt "(w, c)"] by simp
    then show ?thesis by (simp add: e)
  qed
  have 3: "word \<notin> set (missing_words_of dict (map fst word_counts))"
    using assms(2) by (simp add: missing_words_of_filter)
  from 1 2 3 show ?thesis by blast
qed

text \<open>
  C5. A word with no dictionary entry and no remote translation gets the
  per-character fallback as translation: for each character the meanings of its entry
  joined by \<open>", "\<close>, or \<open>"?"\<close> without an entry, the results joined by
  \<open>" + "\<close>.
\<close>

theorem character_fallback_translation:
  assumes "(word, cnt) \<in> set word_counts" and "dict word = None"
    and "missing_translations_of tr dict word_counts word = None"
  shows "(\<exists>e \<in> set (add_translations_and_pinyin tr tone3 word_counts dict).
            Word e = word \<and> Count e = cnt) \<and>
         (\<forall>e \<in> set (add_translations_and_pinyin tr tone3 word_counts dict).
            Word e = word \<longrightarrow>
              Translation e = derive_translation_from_components word dict) \<and>
         derive_translation_from_components word dict =
           join (ustr '' + '')
             (map (\<lambda>c. case dict [c] of Some ce \<Rightarrow> join (ustr '', '') (meanings ce)
                                      | None \<Rightarrow> ustr ''?'') word)"
proof -
  let ?mt = "missing_translations_of tr dict word_counts"
  have e: "Translation (enhance tone3 dict ?mt (word, c)) = derive_translation_from_components word dict" for c
    using assms(2,3) by (simp add: enhance_def)
  have 1: "\<exists>e \<in> set (add_translations_and_pinyin tr tone3 word_counts dict).
            Word e = word \<and> Count e = cnt"
    unfolding set_add_translations_and_pinyin using assms(1)
    by (force simp: Word_enhance Count_enhance)
  have 2: "Translation x = derive_translation_from_components word dict"
    if "x \<in> set (add_translations_and_pinyin tr tone3 word_counts dict)" "Word x = word" for x
  proof -
    from that(1) obtain w c where "x = enhance tone3 dict ?mt (w, c)"
      unfolding set_add_translations_and_pinyin by auto
    with that(2) have "x = enhance tone3 dict ?mt (word, c)"
      using Word_enhance [of tone3 dict ?mt "(w, c)"] by simp
    then show ?thesis by (simp add: e)
  qed
  have 3: "derive_translation_from_components word dict =
           join (ustr '' + '')
             (map (\<lambda>c. case dict [c] of Some ce \<Rightarrow> join (ustr '', '') (meanings ce)
                                      | None \<Rightarrow> ustr ''?'') word)"
    by (simp add: derive_translation_from_components_def character_translations_map)
  from 1 2 3 show ?thesis by blast
qed

text \<open>
  C6. A word with no dictionary entry gets as pinyin the romanizations of its
  characters in U+4E00..U+9FFF, one by one, joined by single spaces; its other
  characters are skipped.
\<close>

theorem synthesized_pinyin:
  assumes "(word, cnt) \<in> set word_counts" and "dict word = None"
  shows "(\<exists>e \<in> set (add_translations_and_pinyin tr tone3 word_counts dict).
            Word e = word \<and> Count e = cnt) \<and>
         (\<forall>e \<in> set (add_translations_and_pinyin tr tone3 word_counts dict).
            Word e = word \<longrightarrow>
              Pinyin e = join (ustr '' '') (map tone3 (filter is_cjk word)))"
proof -
  let ?mt = "missing_translations_of tr dict word_counts"
  have e: "Pinyin (enhance tone3 dict ?mt (word, c)) =
      join (ustr '' '') (map tone3 (filter is_cjk word))" for c
    using assms(2) by (simp add: enhance_def pattern_matches_cjk)
  have 1: "\<exists>e \<in> set (add_translations_and_pinyin tr tone3 word_counts dict).
            Word e = word \<and> Count e = cnt"
    unfolding set_add_translations_and_pinyin using assms(1)
    by (force simp: Word_enhance Count_enhance)
  have 2: "Pinyin x = join (ustr '' '') (map tone3 (filter is_cjk word))"
    if "x \<in> set (add_translations_and_pinyin tr tone3 word_counts dict)" "Word x = word" for x
  proof -
    from that(1) obtain w c where "x = enhance tone3 dict ?mt (w, c)"
      unfolding set_add_translations_and_pinyin by auto
    with that(2) have "x = enhance tone3 dict ?mt (word, c)"
      using Word_enhance [of tone3 dict ?mt "(w, c)"] by simp
    then show ?thesis by (simp add: e)
  qed
  from 1 2 show ?thesis by blast
qed


lemma example_collect_words:
  "collect_words single_chars example_texts [] = [[0x4F60], [0x597D], [0x4F60]]"
  by (simp add: example_texts_def single_chars_def clean_text_filter retained_def is_cjk_def
      is_ascii_letter_def is_ascii_digit_def isspace_def keep_word_iff)

lemma example_segment_text:
  "segment_text single_chars example_texts = [([0x4F60], 2), ([0x597D], 1)]"
  unfolding segment_text_def example_collect_words by (simp add: Counter_def)

lemma example_missing_translations:
  "missing_translations_of failing_translator example_dict example_counts = Map.empty"
  by (simp add: missing_translations_of_def example_counts_def example_dict_def
      fetch_missing_translations_def fetch_loop.simps translate_batch_def batch_size_def
      failing_translator_def)

theorem filtered_tokens_start_with_cjk_witness:
  "[0x4F60] \<in> set (collect_words single_chars example_texts []) \<and>
   [0x4F60] \<noteq> [] \<and> \<not> list_all isspace [0x4F60] \<and> is_cjk (hd [0x4F60])"
proof -
  have h: "[0x4F60] \<in> set (collect_words single_chars example_texts []) \<union>
             fst ` set (segment_text single_chars example_texts)"
    by (simp add: example_collect_words)
  from filtered_tokens_start_with_cjk [of single_chars example_texts] h
  have "[0x4F60] \<noteq> [] \<and> \<not> list_all isspace [0x4F60] \<and> is_cjk (hd [0x4F60])"
    by blast
  then show ?thesis by (simp add: example_collect_words)
qed

theorem counts_positive_words_occur_witness:
  "(\<exists>e \<in> set (data (main single_chars failing_translator example_tone3 example_dict example_texts)).
      Word e = [0x597D] \<and> 1 \<le> Count e \<and>
      Word e \<in> set (collect_words single_chars example_texts []))"
proof -
  let ?d = "data (main single_chars failing_translator example_tone3 example_dict example_texts)"
  let ?e = "enhance example_tone3 example_dict
      (missing_translations_of failing_translator example_dict
         (segment_text single_chars example_texts)) ([0x597D], 1)"
  have e: "?e \<in> set ?d" "Word ?e = [0x597D]"
    by (simp_all add: data_main set_sorted_reverse example_segment_text Word_enhance)
  with counts_positive_words_occur [of single_chars failing_translator example_tone3 example_dict example_texts]
  show ?thesis by blast
qed

theorem dictionary_hit_entry_witness:
  "([0x597D], 1) \<in> set example_counts \<and> example_dict [0x597D] = Some example_entry \<and>
   \<lparr>Word = [0x597D], Count = 1, Translation = ustr ''good, well'', Pinyin = ustr ''hao3''\<rparr>
     \<in> set (add_translations_and_pinyin failing_translator example_tone3 example_counts example_dict)"
proof -
  have h1: "([0x597D], 1) \<in> set example_counts"
    by (simp add: example_counts_def)
  have h2: "example_dict [0x597D] = Some example_entry"
    by (simp add: example_dict_def)
  have j: "join (ustr '', '') (meanings example_entry) = ustr ''good, well''"
    by (simp add: example_entry_def ustr_def)
  have p: "pinyin example_entry = ustr ''hao3''"
    by (simp add: example_entry_def)
  from dictionary_hit_entry [of "[0x597D]" 1 example_counts example_dict example_entry failing_translator
      example_tone3, OF h1 h2] h1 h2 show ?thesis
    unfolding j p by blast
qed

theorem character_fallback_translation_witness:
  "([0x4F60, 0x597D, 0x41], 2) \<in> set example_counts \<and> example_dict [0x4F60, 0x597D, 0x41] = None \<and>
   missing_translations_of failing_translator example_dict example_counts [0x4F60, 0x597D, 0x41] = None \<and>
   (\<exists>e \<in> set (add_translations_and_pinyin failing_translator example_tone3 example_counts example_dict).
      Word e = [0x4F60, 0x597D, 0x41] \<and> Count e = 2 \<and> Translation e = ustr ''? + good, well + ?'')"
proof -
  have h1: "([0x4F60, 0x597D, 0x41], 2) \<in> set example_counts"
    by (simp add: example_counts_def)
  have h2: "example_dict [0x4F60, 0x597D, 0x41] = None"
    by (simp add: example_dict_def)
  have h3: "missing_translations_of failing_translator example_dict example_counts [0x4F60, 0x597D, 0x41] = None"
    by (simp add: example_missing_translations)
  have d: "join (ustr '' + '')
             (map (\<lambda>c. case example_dict [c] of Some ce \<Rightarrow> join (ustr '', '') (meanings ce)
                                      | None \<Rightarrow> ustr ''?'') [0x4F60, 0x597D, 0x41]) =
           ustr ''? + good, well + ?''"
    by (simp add: example_dict_def example_entry_def ustr_def)
  from character_fallback_translation [of "[0x4F60, 0x597D, 0x41]" 2 example_counts example_dict failing_translator
      example_tone3, OF h1 h2 h3] h1 h2 h3 show ?thesis
    unfolding d by metis
qed

theorem synthesized_pinyin_witness:
  "([0x4F60, 0x597D, 0x41], 2) \<in> set example_counts \<and> example_dict [0x4F60, 0x597D, 0x41] = None \<and>
   (\<exists>e \<in> set (add_translations_and_pinyin failing_translator example_tone3 example_counts example_dict).
      Word e = [0x4F60, 0x597D, 0x41] \<and> Count e = 2 \<and> Pinyin e = ustr ''ni3 hao3'')"
proof -
  have h1: "([0x4F60, 0x597D, 0x41], 2) \<in> set example_counts"
    by (simp add: example_counts_def)
  have h2: "example_dict [0x4F60, 0x597D, 0x41] = None"
    by (simp add: example_dict_def)
  have d: "join (ustr '' '') (map example_tone3 (filter is_cjk [0x4F60, 0x597D, 0x41])) =
           ustr ''ni3 hao3''"
    by (simp add: is_cjk_def example_tone3_def ustr_def)
  from synthesized_pinyin [of "[0x4F60, 0x597D, 0x41]" 2 example_counts example_dict failing_translator
      example_tone3, OF h1 h2] h1 h2 show ?thesis
    unfolding d by metis
qed

section \<open>Failure of a translation batch\<close>

lemma batch_size_pos: "0 < batch_size"
  by (simp add: batch_size_def)

lemma lt_num_batches: "k < num_batches ws \<longleftrightarrow> k * batch_size < length ws"
proof -
  have "k < (n + 99) div 100 \<longleftrightarrow> k * 100 < n" for n :: nat
  proof -
    have "k < (n + 99) div 100 \<longleftrightarrow> Suc k \<le> (n + 99) div 100" by arith
    also have "\<dots> \<longleftrightarrow> Suc k * 100 \<le> n + 99"
      by (rule less_eq_div_iff_mult_less_eq) simp
    also have "\<dots> \<longleftrightarrow> k * 100 < n" by arith
    finally show ?thesis .
  qed
  from this [of "length ws"] show ?thesis
    by (simp add: num_batches_def batch_size_def add.commute)
qed

lemma fetch_loop_fold:
  "fetch_loop tr ws (k * batch_size) st =
     fold (\<lambda>j. translate_batch tr ws (j * batch_size)) [k..<num_batches ws] st"
proof (induction "num_batches ws - k" arbitrary: k st)
  case 0
  then have a: "num_batches ws \<le> k" by simp
  then have b: "\<not> k * batch_size < length ws"
    using lt_num_batches [of k ws] by simp
  have "fetch_loop tr ws (k * batch_size) st = st"
    by (subst fetch_loop.simps) (simp only: b if_False)
  with a show ?case by simp
next
  case (Suc d)
  then have lt: "k < num_batches ws" by simp
  then have b: "k * batch_size < length ws"
    by (simp only: lt_num_batches)
  have d: "d = num_batches ws - Suc k" using Suc.hyps(2) by simp
  have s: "k * batch_size + batch_size = Suc k * batch_size" by simp
  have "fetch_loop tr ws (k * batch_size) st =
        fetch_loop tr ws (Suc k * batch_size) (translate_batch tr ws (k * batch_size) st)"
    by (subst fetch_loop.simps) (simp only: b if_True s)
  also have "\<dots> = fold (\<lambda>j. translate_batch tr ws (j * batch_size)) [Suc k..<num_batches ws]
                     (translate_batch tr ws (k * batch_size) st)"
    by (rule Suc.hyps(1) [OF d])
  also have "\<dots> = fold (\<lambda>j. translate_batch tr ws (j * batch_size)) [k..<num_batches ws] st"
    using lt by (simp add: upt_conv_Cons)
  finally show ?case .
qed


lemma fetch_missing_translations_after_batches:
  "fetch_missing_translations tr ws = after_batches tr ws (num_batches ws)"
  using fetch_loop_fold [of tr ws 0] by (simp add: fetch_missing_translations_def after_batches_def)

lemma after_batches_Suc:
  "after_batches tr ws (Suc m) = translate_batch tr ws (m * batch_size) (after_batches tr ws m)"
  by (simp add: after_batches_def)

lemma requests_translate_batch:
  "requests (translate_batch tr ws (j * batch_size) st) =
     requests st @ [join [newline] (nth_batch ws j)]"
  by (simp add: translate_batch_def nth_batch_def Let_def split: option.splits)

lemma requests_after_batches:
  "requests (after_batches tr ws m) = map (\<lambda>j. join [newline] (nth_batch ws j)) [0..<m]"
proof (induction m)
  case 0
  show ?case by (simp add: after_batches_def)
next
  case (Suc m)
  then show ?case by (simp add: after_batches_Suc requests_translate_batch)
qed

lemma store_translations_apply:
  "distinct (map fst kvs) \<Longrightarrow>
   store_translations kvs tbl w = (case map_of kvs w of Some v \<Rightarrow> Some v | None \<Rightarrow> tbl w)"
proof (induction kvs arbitrary: tbl)
  case Nil
  show ?case by simp
next
  case (Cons kv kvs)
  obtain k v where kv: "kv = (k, v)" by (cases kv)
  from Cons.prems have "map_of kvs k = None"
    by (simp add: kv map_of_eq_None_iff)
  with Cons show ?case by (auto simp: kv split: option.splits)
qed

lemma distinct_nth_batch: "distinct ws \<Longrightarrow> distinct (nth_batch ws j)"
  by (simp add: nth_batch_def)

lemma translations_translate_batch:
  assumes "distinct ws" and "length (requests st) = j"
  shows "translations_dict (translate_batch tr ws (j * batch_size) st) =
           translations_dict st ++ batch_translations tr ws j"
proof (cases "tr j (join [newline] (nth_batch ws j))")
  case None
  then show ?thesis
    using assms(2)
    by (simp add: translate_batch_def batch_translations_def nth_batch_def Let_def)
next
  case (Some reply)
  have d: "distinct (map fst (zip (nth_batch ws j) (split newline reply)))"
    using distinct_nth_batch [OF assms(1), of j] by (simp add: map_fst_zip_take)
  have "translations_dict (translate_batch tr ws (j * batch_size) st) =
        store_translations (zip (nth_batch ws j) (split newline reply)) (translations_dict st)"
    using assms(2) Some
    by (simp add: translate_batch_def nth_batch_def Let_def)
  also have "\<dots> = translations_dict st ++ map_of (zip (nth_batch ws j) (split newline reply))"
    by (rule ext) (simp add: store_translations_apply [OF d] map_add_def split: option.splits)
  finally show ?thesis
    by (simp add: batch_translations_def Some)
qed

lemma batch_translations_dom:
  "batch_translations tr ws j w = Some v \<Longrightarrow> w \<in> set (nth_batch ws j)"
  by (auto simp: batch_translations_def split: option.splits dest: map_of_SomeD set_zip_leftD)

lemma nth_batch_subset_take:
  "j < k \<Longrightarrow> set (nth_batch ws j) \<subseteq> set (take (k * batch_size) ws)"
proof -
  assume "j < k"
  then have le: "j * batch_size + batch_size \<le> k * batch_size"
    by (metis Suc_leI mult_Suc mult_le_mono1 add.commute)
  have "nth_batch ws j = drop (j * batch_size) (take (j * batch_size + batch_size) ws)"
    by (simp add: nth_batch_def drop_take)
  then have "set (nth_batch ws j) \<subseteq> set (take (j * batch_size + batch_size) ws)"
    by (simp add: set_drop_subset)
  also have "\<dots> \<subseteq> set (take (k * batch_size) ws)"
    by (rule set_take_subset_set_take [OF le])
  finally show ?thesis .
qed

lemma nth_batch_subset_drop: "set (nth_batch ws k) \<subseteq> set (drop (k * batch_size) ws)"
  by (simp add: nth_batch_def set_take_subset)

lemma nth_batch_disjoint_lt:
  assumes "distinct ws" and "j < k"
  shows "set (nth_batch ws j) \<inter> set (nth_batch ws k) = {}"
proof -
  have "set (take (k * batch_size) ws) \<inter> set (drop (k * batch_size) ws) = {}"
    using assms(1) by (rule set_take_disj_set_drop_if_distinct) simp
  with nth_batch_subset_take [OF assms(2), of ws] nth_batch_subset_drop [of ws k]
  show ?thesis by blast
qed

lemma nth_batch_disjoint:
  assumes "distinct ws" and "j \<noteq> k"
  shows "set (nth_batch ws j) \<inter> set (nth_batch ws k) = {}"
proof (cases "j < k")
  case True
  with assms(1) show ?thesis by (rule nth_batch_disjoint_lt)
next
  case False
  with assms(2) have "k < j" by simp
  with assms(1) have "set (nth_batch ws k) \<inter> set (nth_batch ws j) = {}"
    by (rule nth_batch_disjoint_lt)
  then show ?thesis by blast
qed

lemma translations_after_batches:
  assumes "distinct ws" and "w \<in> set (nth_batch ws k)"
  shows "translations_dict (after_batches tr ws m) w =
           (if k < m then batch_translations tr ws k w else None)"
proof (induction m)
  case 0
  show ?case by (simp add: after_batches_def)
next
  case (Suc m)
  have len: "length (requests (after_batches tr ws m)) = m"
    by (simp add: requests_after_batches)
  have step: "translations_dict (after_batches tr ws (Suc m)) w =
        (translations_dict (after_batches tr ws m) ++ batch_translations tr ws m) w"
    by (simp only: after_batches_Suc translations_translate_batch [OF assms(1) len])
  show ?case
  proof (cases "m = k")
    case True
    with Suc step show ?thesis
      by (simp add: map_add_def split: option.splits)
  next
    case False
    then have "w \<notin> set (nth_batch ws m)"
      using nth_batch_disjoint [OF assms(1), of m k] assms(2) by blast
    then have "batch_translations tr ws m w = None"
      using batch_translations_dom [of tr ws m w] by (cases "batch_translations tr ws m w") auto
    with Suc step False show ?thesis
      by (auto simp: map_add_def less_Suc_eq)
  qed
qed

lemma logged_translate_batch_error:
  assumes "length (requests st) = j" and "tr j (join [newline] (nth_batch ws j)) = None"
  shows "Error_translating_batch (Suc j) \<in> set (logged (translate_batch tr ws (j * batch_size) st))"
  using assms batch_size_pos
  by (simp add: translate_batch_def nth_batch_def Let_def)

lemma logged_translate_batch_mono:
  "set (logged st) \<subseteq> set (logged (translate_batch tr ws i st))"
  by (auto simp: translate_batch_def Let_def split: option.splits)

lemma logged_after_batches_error:
  assumes "tr k (join [newline] (nth_batch ws k)) = None"
  shows "k < m \<Longrightarrow> Error_translating_batch (Suc k) \<in> set (logged (after_batches tr ws m))"
proof (induction m)
  case 0
  then show ?case by simp
next
  case (Suc m)
  show ?case
  proof (cases "k = m")
    case True
    have "length (requests (after_batches tr ws m)) = m"
      by (simp add: requests_after_batches)
    from logged_translate_batch_error [OF this] assms True show ?thesis
      by (simp add: after_batches_Suc)
  next
    case False
    with Suc have "Error_translating_batch (Suc k) \<in> set (logged (after_batches tr ws m))"
      by simp
    with logged_translate_batch_mono show ?thesis
      unfolding after_batches_Suc by blast
  qed
qed


lemma length_add_translations_and_pinyin:
  "length (add_translations_and_pinyin tr tone3 word_counts dict) = length word_counts"
  by (simp add: add_translations_and_pinyin_def Let_def length_sorted_reverse enhance_all_map)

lemma missing_translations_of_fetch:
  "missing_words_of dict (map fst word_counts) \<noteq> [] \<Longrightarrow>
   missing_translations_of tr dict word_counts =
     translations_dict (fetch_missing_translations tr (missing_words_of dict (map fst word_counts)))"
  by (simp add: missing_translations_of_def Let_def)

lemma distinct_missing_words_of:
  "distinct ws \<Longrightarrow> distinct (missing_words_of dict ws)"
  by (simp add: missing_words_of_filter)

lemma nth_batch_subset: "set (nth_batch ws k) \<subseteq> set ws"
  using nth_batch_subset_drop [of ws k] set_drop_subset [of "k * batch_size" ws] by blast

text \<open>
  C7. The keys of the word-count table are distinct (it is a dictionary). If the call
  for batch \<open>k\<close> raises an exception, then: every batch is sent to the service exactly
  once, in order (no retry, and the later batches are still sent); the error is logged
  under the number of the batch; no word of batch \<open>k\<close> has a remote translation, and
  its entry carries the per-character fallback; the words of every batch have exactly
  the translations that the reply to their own batch gives them; and the enricher
  returns one entry for every word.
\<close>

theorem batch_failure_falls_back:
  fixes word_counts :: counter and dict :: dictionary and tr :: translator
  defines "ws \<equiv> missing_words_of dict (map fst word_counts)"
  defines "R \<equiv> fetch_missing_translations tr ws"
  assumes "distinct (map fst word_counts)"
    and "k < num_batches ws"
    and "tr k (join [newline] (nth_batch ws k)) = None"
  shows "requests R = map (\<lambda>j. join [newline] (nth_batch ws j)) [0..<num_batches ws] \<and>
         Error_translating_batch (Suc k) \<in> set (logged R) \<and>
         (\<forall>w \<in> set (nth_batch ws k).
            translations_dict R w = None \<and>
            (\<forall>e \<in> set (add_translations_and_pinyin tr tone3 word_counts dict).
               Word e = w \<longrightarrow> Translation e = derive_translation_from_components w dict)) \<and>
         (\<forall>j < num_batches ws. \<forall>w \<in> set (nth_batch ws j).
            translations_dict R w = batch_translations tr ws j w) \<and>
         length (add_translations_and_pinyin tr tone3 word_counts dict) = length word_counts"
proof -
  have R: "R = after_batches tr ws (num_batches ws)"
    by (simp add: R_def fetch_missing_translations_after_batches)
  have dws: "distinct ws"
    unfolding ws_def using assms(3) by (rule distinct_missing_words_of)
  have 1: "requests R = map (\<lambda>j. join [newline] (nth_batch ws j)) [0..<num_batches ws]"
    by (simp only: R requests_after_batches)
  have 2: "Error_translating_batch (Suc k) \<in> set (logged R)"
    unfolding R using assms(5) assms(4) by (rule logged_after_batches_error)
  have 4: "translations_dict R w = batch_translations tr ws j w"
    if "j < num_batches ws" "w \<in> set (nth_batch ws j)" for j w
    using translations_after_batches [OF dws that(2), of tr "num_batches ws"] that(1)
    by (simp add: R)
  have 3: "translations_dict R w = None \<and>
            (\<forall>e \<in> set (add_translations_and_pinyin tr tone3 word_counts dict).
               Word e = w \<longrightarrow> Translation e = derive_translation_from_components w dict)"
    if w: "w \<in> set (nth_batch ws k)" for w
  proof -
    have n: "translations_dict R w = None"
      using 4 [OF assms(4) w] assms(5) by (simp add: batch_translations_def)
    from w have wws: "w \<in> set ws"
      using nth_batch_subset by blast
    then have ne: "missing_words_of dict (map fst word_counts) \<noteq> []"
      unfolding ws_def by auto
    from wws have dw: "dict w = None"
      by (simp add: ws_def missing_words_of_filter)
    have mt: "missing_translations_of tr dict word_counts w = None"
      using n by (simp add: missing_translations_of_fetch [OF ne] R_def ws_def)
    have "Translation e = derive_translation_from_components w dict"
      if "e \<in> set (add_translations_and_pinyin tr tone3 word_counts dict)" "Word e = w" for e
    proof -
      from that(1) obtain v c where "e = enhance tone3 dict (missing_translations_of tr dict word_counts) (v, c)"
        unfolding set_add_translations_and_pinyin by auto
      with that(2) have "e = enhance tone3 dict (missing_translations_of tr dict word_counts) (w, c)"
        using Word_enhance [of tone3 dict "missing_translations_of tr dict word_counts" "(v, c)"] by simp
      then show ?thesis
        using dw mt by (simp add: enhance_def)
    qed
    with n show ?thesis by blast
  qed
  note 5 = length_add_translations_and_pinyin [of tr tone3 word_counts dict]
  from 1 2 3 4 5 show ?thesis by blast
qed


lemma many_missing_words: "missing_words_of Map.empty (map fst many_counts) = many_words"
  by (simp add: missing_words_of_filter many_counts_def comp_def)

lemma distinct_many_words: "distinct many_words"
  by (simp add: many_words_def distinct_map inj_on_def)

lemma num_batches_many_words: "num_batches many_words = 2"
  by (simp add: num_batches_def many_words_def batch_size_def)

lemma nth_batch_many_words_0: "nth_batch many_words 0 = map (\<lambda>n. [0x4E00 + n]) [0..<100]"
  by (simp add: nth_batch_def many_words_def batch_size_def take_map)

lemma nth_batch_many_words_1: "nth_batch many_words 1 = [[0x4E64]]"
  by (simp add: nth_batch_def many_words_def batch_size_def take_map drop_map)

theorem batch_failure_falls_back_witness:
  "distinct (map fst many_counts) \<and>
   0 < num_batches (missing_words_of Map.empty (map fst many_counts)) \<and>
   first_call_fails 0
     (join [newline] (nth_batch (missing_words_of Map.empty (map fst many_counts)) 0)) = None \<and>
   [0x4E00] \<in> set (nth_batch many_words 0) \<and>
   translations_dict (fetch_missing_translations first_call_fails many_words) [0x4E00] = None \<and>
   Error_translating_batch 1 \<in> set (logged (fetch_missing_translations first_call_fails many_words)) \<and>
   length (requests (fetch_missing_translations first_call_fails many_words)) = 2 \<and>
   [0x4E64] \<in> set (nth_batch many_words 1) \<and>
   translations_dict (fetch_missing_translations first_call_fails many_words) [0x4E64] = Some [0x4E64] \<and>
   (\<exists>e \<in> set (add_translations_and_pinyin first_call_fails example_tone3 many_counts Map.empty).
      Word e = [0x4E00] \<and> Translation e = ustr ''?'')"
proof -
  have h1: "distinct (map fst many_counts)"
    using distinct_many_words by (simp add: many_counts_def comp_def)
  have h2: "0 < num_batches (missing_words_of Map.empty (map fst many_counts))"
    by (simp add: many_missing_words num_batches_many_words)
  have h3: "first_call_fails 0
     (join [newline] (nth_batch (missing_words_of Map.empty (map fst many_counts)) 0)) = None"
    by (simp add: first_call_fails_def)
  have m0: "[0x4E00] \<in> set (nth_batch many_words 0)"
    unfolding nth_batch_many_words_0 by (simp add: image_iff)
  have m1: "[0x4E64] \<in> set (nth_batch many_words 1)"
    unfolding nth_batch_many_words_1 by simp
  have b1: "batch_translations first_call_fails many_words 1 [0x4E64] = Some [0x4E64]"
    unfolding batch_translations_def nth_batch_many_words_1
    by (simp add: first_call_fails_def newline_def)
  have d: "derive_translation_from_components [0x4E00] Map.empty = ustr ''?''"
    by (simp add: derive_translation_from_components_def)
  note c = batch_failure_falls_back [of many_counts 0 Map.empty first_call_fails example_tone3, OF h1 h2 h3,
      unfolded many_missing_words num_batches_many_words]
  from c have r: "length (requests (fetch_missing_translations first_call_fails many_words)) = 2"
    by simp
  from c m0 have t0: "translations_dict (fetch_missing_translations first_call_fails many_words) [0x4E00] = None"
    by blast
  have "([0x4E00], 1) \<in> set many_counts"
    unfolding many_counts_def many_words_def by (simp add: image_iff)
  then have "\<exists>e \<in> set (add_translations_and_pinyin first_call_fails example_tone3 many_counts Map.empty).
      Word e = [0x4E00]"
    unfolding set_add_translations_and_pinyin by (force simp: Word_enhance)
  with c m0 have e0: "\<exists>e \<in> set (add_translations_and_pinyin first_call_fails example_tone3 many_counts Map.empty).
      Word e = [0x4E00] \<and> Translation e = ustr ''?''"
    unfolding d [symmetric] by blast
  from c have "\<forall>j<2. \<forall>w \<in> set (nth_batch many_words j).
      translations_dict (fetch_missing_translations first_call_fails many_words) w =
      batch_translations first_call_fails many_words j w"
    by blast
  with m1 b1 have t1: "translations_dict (fetch_missing_translations first_call_fails many_words) [0x4E64] = Some [0x4E64]"
    by (metis one_less_numeral_iff semiring_norm(76))
  from c have l: "Error_translating_batch 1 \<in> set (logged (fetch_missing_translations first_call_fails many_words))"
    by simp
  from h1 h2 h3 m0 t0 l r m1 t1 e0 show ?thesis by blast
qed

end
